theory Spec2Isabelle
  imports Main "HOL-Library.Word"
begin

section \<open>CharPointer_UTF32: a cursor over null-terminated UTF-32 text\<close>

text \<open>
  The class \<open>CharPointer_UTF32\<close> of \<open>juce_CharPointer_UTF32.h\<close> wraps one raw pointer
  \<open>CharType* data\<close> into caller-owned storage. Its methods read and write that storage,
  so the embedding passes the storage explicitly.

  \<^item> \<open>juce_wchar\<close> (= \<open>CharType\<close>) is a 32-bit code unit: \<open>32 word\<close>.
  \<^item> The storage is a list of code units; an address is an index into it, counted in
    units of \<open>CharType\<close>, so \<open>++data\<close> is \<open>data + 1\<close>.
  \<^item> Reading or writing an address outside the storage is undefined behaviour in C++;
    the model returns the error \<open>InvalidAccess\<close> there.
  \<^item> The integer types are those of a 64-bit target: \<open>int\<close> has 32 bits, \<open>size_t\<close> has 64.
  \<^item> A \<open>size_t\<close> count of units of this storage, and the byte size of a string that lies
    in this storage, are \<open>nat\<close>: both are at most the number of bytes of the storage
    and cannot reach \<open>2 ^ 64\<close>.
  \<^item> The \<open>size_t\<close> product of \<open>getBytesRequiredFor\<close> takes the length of a source of any
    class, which this storage does not bound: it is written out modulo \<open>2 ^ 64\<close>.
  \<^item> \<open>int\<close> counters are \<open>int\<close> with the 32-bit range written out: a string of
    \<open>2 ^ 31\<close> units fits such a machine, incrementing \<open>INT_MAX\<close> is undefined behaviour
    in C++, and the model returns the error \<open>IntOverflow\<close> there.
\<close>

type_synonym juce_wchar = "32 word"

type_synonym memory = "juce_wchar list"

record CharPointer_UTF32 =
  data :: nat

datatype error = InvalidAccess | IntOverflow

definition sizeof_CharType :: nat where
  "sizeof_CharType = 4"

definition INT_MAX :: int where
  "INT_MAX = 2147483647"

definition SIZE_MAX :: nat where
  "SIZE_MAX = 18446744073709551615"

subsection \<open>Pointer comparison and access\<close>

text \<open>\<open>operator==\<close>: \<open>return data == other.data;\<close>\<close>

definition op_eq :: "CharPointer_UTF32 \<Rightarrow> CharPointer_UTF32 \<Rightarrow> bool" where
  "op_eq this other = (data this = data other)"

text \<open>\<open>operator!=\<close>: the body is the same expression, \<open>return data == other.data;\<close>\<close>

definition op_neq :: "CharPointer_UTF32 \<Rightarrow> CharPointer_UTF32 \<Rightarrow> bool" where
  "op_neq this other = (data this = data other)"

text \<open>\<open>getAddress\<close>: \<open>return data;\<close>\<close>

definition getAddress :: "CharPointer_UTF32 \<Rightarrow> nat" where
  "getAddress this = data this"

text \<open>\<open>operator*\<close>: \<open>return *data;\<close>\<close>

definition deref :: "memory \<Rightarrow> CharPointer_UTF32 \<Rightarrow> error + juce_wchar" where
  "deref m this = (if data this < length m then Inr (m ! data this) else Inl InvalidAccess)"

text \<open>\<open>isEmpty\<close>: \<open>return *data == 0;\<close>\<close>

definition isEmpty :: "memory \<Rightarrow> CharPointer_UTF32 \<Rightarrow> error + bool" where
  "isEmpty m this = (if data this < length m then Inr (m ! data this = 0) else Inl InvalidAccess)"

subsection \<open>Writing\<close>

text \<open>\<open>write\<close>: \<open>*data++ = charToWrite;\<close> The cursor is mutated, so the new cursor is returned
  with the new storage. (\<open>write\<close> is a keyword of Isabelle, hence the suffix.)\<close>

definition write_char :: "memory \<Rightarrow> CharPointer_UTF32 \<Rightarrow> juce_wchar \<Rightarrow> error + (memory \<times> CharPointer_UTF32)" where
  "write_char m this charToWrite =
     (if data this < length m
      then Inr (m[data this := charToWrite], this\<lparr>data := data this + 1\<rparr>)
      else Inl InvalidAccess)"

text \<open>\<open>writeNull\<close>: \<open>*data = 0;\<close> The method is \<open>const\<close>: the cursor is not changed, only
  the storage is returned.\<close>

definition writeNull :: "memory \<Rightarrow> CharPointer_UTF32 \<Rightarrow> error + memory" where
  "writeNull m this =
     (if data this < length m then Inr (m[data this := 0]) else Inl InvalidAccess)"

subsection \<open>Terminated strings\<close>

text \<open>
  \<open>is_string m p n\<close>: the storage holds, from address \<open>p\<close>, a string of exactly \<open>n\<close>
  characters followed by its terminator. All \<open>n\<close> units and the terminator lie inside the
  storage, the \<open>n\<close> units are non-zero and the unit after them is zero. A cursor at \<open>p\<close>
  is well-formed when this holds for some \<open>n\<close>.
\<close>

definition is_string :: "memory \<Rightarrow> nat \<Rightarrow> nat \<Rightarrow> bool" where
  "is_string m p n =
     (p + n < length m \<and> m ! (p + n) = 0 \<and> list_all (\<lambda>c. c \<noteq> 0) (take n (drop p m)))"

subsection \<open>Measuring\<close>

text \<open>
  \<open>length\<close>, the branch that is written out in the header:
  \<^verbatim>\<open>size_t n = 0; while (data[n] != 0) ++n; return n;\<close>
  The other branch, for a native 32-bit \<open>wchar_t\<close>, returns \<open>wcslen (data)\<close>, which the C
  standard defines as the same count. The loop, with its counter as an argument:
\<close>

function length_loop :: "memory \<Rightarrow> nat \<Rightarrow> nat \<Rightarrow> error + nat" where
  "length_loop m d n =
     (if d + n < length m
      then (if m ! (d + n) \<noteq> 0 then length_loop m d (n + 1) else Inr n)
      else Inl InvalidAccess)"
  by pat_completeness auto
termination
  by (relation "measure (\<lambda>(m, d, n). length m - (d + n))") auto

declare length_loop.simps [simp del]

definition length_chars :: "memory \<Rightarrow> CharPointer_UTF32 \<Rightarrow> error + nat" where
  "length_chars m this = length_loop m (data this) 0"

text \<open>
  Modelled from the spec: \<open>lengthUpTo\<close> of the header only forwards to
  \<open>CharacterFunctions::lengthUpTo (*this, maxCharsToCount)\<close>, which is not in the header.
  The spec: it "counts characters strictly before the terminator, capped at \<open>max\<close> for the
  bounded variant (scan stops early once the cap is reached, even if the terminator has not
  appeared)". The cap is tested before the unit is read.
\<close>

function lengthUpTo_loop :: "memory \<Rightarrow> nat \<Rightarrow> nat \<Rightarrow> nat \<Rightarrow> error + nat" where
  "lengthUpTo_loop m d maxCharsToCount len =
     (if len < maxCharsToCount
      then (if d + len < length m
            then (if m ! (d + len) \<noteq> 0 then lengthUpTo_loop m d maxCharsToCount (len + 1)
                  else Inr len)
            else Inl InvalidAccess)
      else Inr len)"
  by pat_completeness auto
termination
  by (relation "measure (\<lambda>(m, d, k, len). k - len)") auto

declare lengthUpTo_loop.simps [simp del]

definition lengthUpTo :: "memory \<Rightarrow> CharPointer_UTF32 \<Rightarrow> nat \<Rightarrow> error + nat" where
  "lengthUpTo m this maxCharsToCount = lengthUpTo_loop m (data this) maxCharsToCount 0"

text \<open>\<open>sizeInBytes\<close>: \<open>return sizeof (CharType) * (length() + 1);\<close>\<close>

definition sizeInBytes :: "memory \<Rightarrow> CharPointer_UTF32 \<Rightarrow> error + nat" where
  "sizeInBytes m this =
     (case length_chars m this of
        Inl e \<Rightarrow> Inl e
      | Inr n \<Rightarrow> Inr (sizeof_CharType * (n + 1)))"

text \<open>
  \<open>getBytesRequiredFor (const CharPointer& text)\<close>: \<open>return sizeof (CharType) * text.length();\<close>
  The method is a template over the class of \<open>text\<close>, a cursor of any encoding; the
  \<open>length()\<close> of that class is the first argument of the model. The product is a
  \<open>size_t\<close>: it wraps around modulo \<open>SIZE_MAX + 1\<close>.
\<close>

definition getBytesRequiredFor :: "('c \<Rightarrow> error + nat) \<Rightarrow> 'c \<Rightarrow> error + nat" where
  "getBytesRequiredFor text_length text =
     (case text_length text of
        Inl e \<Rightarrow> Inl e
      | Inr n \<Rightarrow> Inr ((sizeof_CharType * n) mod (SIZE_MAX + 1)))"

text \<open>\<open>findTerminatingNull\<close>: \<open>return CharPointer_UTF32 (data + length());\<close>\<close>

definition findTerminatingNull :: "memory \<Rightarrow> CharPointer_UTF32 \<Rightarrow> error + CharPointer_UTF32" where
  "findTerminatingNull m this =
     (case length_chars m this of
        Inl e \<Rightarrow> Inl e
      | Inr n \<Rightarrow> Inr \<lparr>data = data this + n\<rparr>)"

subsection \<open>Copying and comparing\<close>

text \<open>
  \<open>writeAll (const CharPointer_UTF32& src)\<close>:
  \<^verbatim>\<open>const CharType* s = src.data;
  while ((*data = *s) != 0) { ++data; ++s; }\<close>
  The condition of the loop stores \<open>*s\<close> into \<open>*data\<close> before it tests the stored value, so
  the zero that ends the loop has been stored as well. \<open>d\<close> is \<open>data\<close>, \<open>s\<close> is the local
  pointer; the loop returns the storage and the final \<open>data\<close>.
\<close>

function writeAll_loop :: "memory \<Rightarrow> nat \<Rightarrow> nat \<Rightarrow> error + (memory \<times> nat)" where
  "writeAll_loop m d s =
     (if s < length m \<and> d < length m
      then (let c = m ! s; m' = m[d := c]
            in if c \<noteq> 0 then writeAll_loop m' (d + 1) (s + 1) else Inr (m', d))
      else Inl InvalidAccess)"
  by pat_completeness auto
termination
  by (relation "measure (\<lambda>(m, d, s). length m - s)") auto

declare writeAll_loop.simps [simp del]

definition writeAll :: "memory \<Rightarrow> CharPointer_UTF32 \<Rightarrow> CharPointer_UTF32 \<Rightarrow> error + (memory \<times> CharPointer_UTF32)" where
  "writeAll m this src =
     (case writeAll_loop m (data this) (data src) of
        Inl e \<Rightarrow> Inl e
      | Inr (m', d) \<Rightarrow> Inr (m', this\<lparr>data := d\<rparr>))"

text \<open>
  Modelled from the spec: \<open>compare\<close> of the header only forwards, to \<open>wcscmp\<close> of the C
  library or to \<open>CharacterFunctions::compare (*this, other)\<close>; neither is in the header. The
  spec: "character-by-character comparison in code-point order [...]; returns
  negative/zero/positive matching the first differing character's signed difference, or 0
  if both reach their terminator [...] simultaneously".
\<close>

function compare_loop :: "memory \<Rightarrow> nat \<Rightarrow> nat \<Rightarrow> error + int" where
  "compare_loop m a b =
     (if a < length m \<and> b < length m
      then (let c1 = m ! a; c2 = m ! b
            in if c1 \<noteq> c2 then Inr (uint c1 - uint c2)
               else if c1 = 0 then Inr 0
               else compare_loop m (a + 1) (b + 1))
      else Inl InvalidAccess)"
  by pat_completeness auto
termination
  by (relation "measure (\<lambda>(m, a, b). length m - a)") auto

declare compare_loop.simps [simp del]

definition compare :: "memory \<Rightarrow> CharPointer_UTF32 \<Rightarrow> CharPointer_UTF32 \<Rightarrow> error + int" where
  "compare m this other = compare_loop m (data this) (data other)"

subsection \<open>Searching\<close>

text \<open>
  \<open>indexOf (const juce_wchar charToFind)\<close>:
  \<^verbatim>\<open>int i = 0;
  while (data[i] != 0) { if (data[i] == charToFind) return i; ++i; }
  return -1;\<close>
  \<open>data[i]\<close> is the unit at address \<open>data + i\<close>. The counter is an \<open>int\<close>: \<open>++i\<close> at
  \<open>INT_MAX\<close> is the error \<open>IntOverflow\<close>.
\<close>

function indexOf_loop :: "memory \<Rightarrow> nat \<Rightarrow> juce_wchar \<Rightarrow> int \<Rightarrow> error + int" where
  "indexOf_loop m d charToFind i =
     (let a = int d + i
      in if a < 0 \<or> int (length m) \<le> a then Inl InvalidAccess
         else if m ! nat a = 0 then Inr (- 1)
         else if m ! nat a = charToFind then Inr i
         else if i = INT_MAX then Inl IntOverflow
         else indexOf_loop m d charToFind (i + 1))"
  by pat_completeness auto
termination
  by (relation "measure (\<lambda>(m, d, c, i). nat (int (length m) - (int d + i)))") auto

declare indexOf_loop.simps [simp del]

definition indexOf :: "memory \<Rightarrow> CharPointer_UTF32 \<Rightarrow> juce_wchar \<Rightarrow> error + int" where
  "indexOf m this charToFind = indexOf_loop m (data this) charToFind 0"

section \<open>Properties\<close>

subsection \<open>Facts about terminated strings\<close>

lemma is_string_bound: "is_string m p n \<Longrightarrow> p + n < length m"
  by (simp add: is_string_def)

lemma is_string_terminator: "is_string m p n \<Longrightarrow> m ! (p + n) = 0"
  by (simp add: is_string_def)

lemma is_string_nonzero:
  assumes "is_string m p n" and "i < n"
  shows "m ! (p + i) \<noteq> 0"
proof -
  from assms have "p + n < length m"
    by (simp add: is_string_def)
  with assms(2) have "i < length (take n (drop p m))"
    by simp
  moreover from assms have "list_all (\<lambda>c. c \<noteq> 0) (take n (drop p m))"
    by (simp add: is_string_def)
  ultimately have "take n (drop p m) ! i \<noteq> 0"
    by (simp add: list_all_length)
  with assms show ?thesis
    by (simp add: is_string_def)
qed

lemma is_stringI:
  "p + n < length m \<Longrightarrow> m ! (p + n) = 0 \<Longrightarrow> (\<And>i. i < n \<Longrightarrow> m ! (p + i) \<noteq> 0) \<Longrightarrow> is_string m p n"
  by (simp add: is_string_def list_all_length)

lemma is_string_unique: "is_string m p n \<Longrightarrow> is_string m p n' \<Longrightarrow> n = n'"
  by (metis is_string_nonzero is_string_terminator linorder_neqE_nat)

lemma is_string_update:
  assumes "is_string m p n" and "a < p \<or> p + n < a"
  shows "is_string (m[a := c]) p n"
proof (rule is_stringI)
  show "p + n < length (m[a := c])"
    using assms(1) by (simp add: is_string_bound)
  show "m[a := c] ! (p + n) = 0"
    using assms by (auto simp: is_string_terminator)
  show "m[a := c] ! (p + i) \<noteq> 0" if "i < n" for i
    using assms that by (auto simp: is_string_nonzero)
qed

lemma is_string_Suc:
  assumes "is_string m p (Suc n)"
  shows "is_string m (Suc p) n"
proof (rule is_stringI)
  show "Suc p + n < length m"
    using is_string_bound [OF assms] by simp
  show "m ! (Suc p + n) = 0"
    using is_string_terminator [OF assms] by simp
  show "m ! (Suc p + i) \<noteq> 0" if "i < n" for i
    using is_string_nonzero [OF assms, of "Suc i"] that by simp
qed


subsection \<open>The loops on terminated strings\<close>

text \<open>Each loop is followed from any intermediate value of its counter to its result.\<close>

lemma length_loop_is_string:
  "is_string m d n \<Longrightarrow> k \<le> n \<Longrightarrow> length_loop m d k = Inr n"
proof (induction m d k rule: length_loop.induct)
  case (1 m d k)
  from "1.prems" have inside: "d + k < length m"
    using is_string_bound [of m d n] by simp
  show ?case
  proof (cases "k = n")
    case True
    with "1.prems" inside show ?thesis
      by (subst length_loop.simps) (simp add: is_string_terminator)
  next
    case False
    with "1.prems" have lt: "k < n" by simp
    then have nz: "m ! (d + k) \<noteq> 0"
      using "1.prems"(1) by (rule_tac is_string_nonzero)
    have "length_loop m d (k + 1) = Inr n"
      using "1.IH" inside nz "1.prems"(1) lt by simp
    with inside nz show ?thesis
      by (subst length_loop.simps) simp
  qed
qed

lemma lengthUpTo_loop_is_string:
  "is_string m d n \<Longrightarrow> len \<le> n \<Longrightarrow> len \<le> k \<Longrightarrow> lengthUpTo_loop m d k len = Inr (min n k)"
proof (induction m d k len rule: lengthUpTo_loop.induct)
  case (1 m d k len)
  show ?case
  proof (cases "len < k")
    case False
    with "1.prems" show ?thesis
      by (subst lengthUpTo_loop.simps) simp
  next
    case True
    from "1.prems" have inside: "d + len < length m"
      using is_string_bound [of m d n] by simp
    show ?thesis
    proof (cases "len = n")
      case True
      with \<open>len < k\<close> "1.prems" inside show ?thesis
        by (subst lengthUpTo_loop.simps) (simp add: is_string_terminator)
    next
      case False
      with "1.prems" have lt: "len < n" by simp
      then have nz: "m ! (d + len) \<noteq> 0"
        using "1.prems"(1) by (rule_tac is_string_nonzero)
      have "lengthUpTo_loop m d k (len + 1) = Inr (min n k)"
        using "1.IH" \<open>len < k\<close> inside nz "1.prems"(1) lt by simp
      with \<open>len < k\<close> inside nz show ?thesis
        by (subst lengthUpTo_loop.simps) simp
    qed
  qed
qed

lemma writeAll_loop_copy:
  assumes "is_string m s n" and "d + n < length m" and "d \<le> s \<or> s + n < d"
  shows "\<exists>m'. writeAll_loop m d s = Inr (m', d + n) \<and> length m' = length m
           \<and> (\<forall>i\<le>n. m' ! (d + i) = m ! (s + i))
           \<and> (\<forall>a. a < d \<or> d + n < a \<longrightarrow> m' ! a = m ! a)"
  using assms
proof (induction n arbitrary: m d s)
  case 0
  then have "s < length m" and "d < length m" and "m ! s = 0"
    using is_string_bound [of m s 0] is_string_terminator [of m s 0] by simp_all
  then have "writeAll_loop m d s = Inr (m[d := 0], d)"
    by (subst writeAll_loop.simps) simp
  with \<open>d < length m\<close> \<open>m ! s = 0\<close> show ?case
    by simp
next
  case (Suc n)
  let ?m1 = "m[d := m ! s]"
  from Suc.prems have inside: "s < length m" "d < length m"
    using is_string_bound [of m s "Suc n"] by simp_all
  from Suc.prems have nz: "m ! s \<noteq> 0"
    using is_string_nonzero [of m s "Suc n" 0] by simp
  have step: "writeAll_loop m d s = writeAll_loop ?m1 (Suc d) (Suc s)"
    using inside nz by (subst writeAll_loop.simps) simp
  have "is_string m (Suc s) n"
    using Suc.prems(1) by (rule is_string_Suc)
  moreover have "d < Suc s \<or> Suc s + n < d"
    using Suc.prems(3) by auto
  ultimately have str1: "is_string ?m1 (Suc s) n"
    by (rule is_string_update)
  have cap1: "Suc d + n < length ?m1"
    using Suc.prems(2) by simp
  have ord1: "Suc d \<le> Suc s \<or> Suc s + n < Suc d"
    using Suc.prems(3) by auto
  from Suc.IH [OF str1 cap1 ord1] obtain m' where
    run: "writeAll_loop ?m1 (Suc d) (Suc s) = Inr (m', Suc d + n)" and
    len: "length m' = length ?m1" and
    copied: "\<forall>i\<le>n. m' ! (Suc d + i) = ?m1 ! (Suc s + i)" and
    frame: "\<forall>a. a < Suc d \<or> Suc d + n < a \<longrightarrow> m' ! a = ?m1 ! a"
    by blast
  have "m' ! (d + i) = m ! (s + i)" if "i \<le> Suc n" for i
  proof (cases i)
    case 0
    with frame inside show ?thesis by simp
  next
    case (Suc j)
    with that have "j \<le> n" by simp
    with copied have "m' ! (Suc d + j) = ?m1 ! (Suc s + j)" by blast
    moreover have "Suc s + j \<noteq> d"
      using Suc.prems(3) \<open>j \<le> n\<close> by auto
    ultimately show ?thesis
      using Suc by simp
  qed
  moreover have "m' ! a = m ! a" if "a < d \<or> d + Suc n < a" for a
  proof -
    from that frame have "m' ! a = ?m1 ! a" by auto
    with that show ?thesis by auto
  qed
  ultimately show ?case
    using step run len by simp
qed

lemma compare_loop_equal:
  assumes "is_string m a n" and "b + n < length m" and "\<forall>i\<le>n. m ! (b + i) = m ! (a + i)"
  shows "compare_loop m a b = Inr 0"
  using assms
proof (induction n arbitrary: a b)
  case 0
  then have "a < length m" and "b < length m" and "m ! a = 0" and "m ! b = 0"
    using is_string_bound [of m a 0] is_string_terminator [of m a 0] by simp_all
  then show ?case
    by (subst compare_loop.simps) simp
next
  case (Suc n)
  from Suc.prems have inside: "a < length m" "b < length m"
    using is_string_bound [of m a "Suc n"] by simp_all
  from Suc.prems have nz: "m ! a \<noteq> 0"
    using is_string_nonzero [of m a "Suc n" 0] by simp
  from Suc.prems(3) have same: "m ! b = m ! a"
    by (metis add.right_neutral le0)
  have step: "compare_loop m a b = compare_loop m (Suc a) (Suc b)"
    using inside nz same by (subst compare_loop.simps) simp
  have "is_string m (Suc a) n"
    using Suc.prems(1) by (rule is_string_Suc)
  moreover have "Suc b + n < length m"
    using Suc.prems(2) by simp
  moreover have "\<forall>i\<le>n. m ! (Suc b + i) = m ! (Suc a + i)"
  proof (intro allI impI)
    fix i assume "i \<le> n"
    then have "Suc i \<le> Suc n" by simp
    with Suc.prems(3) have "m ! (b + Suc i) = m ! (a + Suc i)" by blast
    then show "m ! (Suc b + i) = m ! (Suc a + i)" by simp
  qed
  ultimately have "compare_loop m (Suc a) (Suc b) = Inr 0"
    by (rule Suc.IH)
  with step show ?case by simp
qed

lemma indexOf_loop_step:
  assumes "d + j < length m" and "m ! (d + j) \<noteq> 0" and "m ! (d + j) \<noteq> c"
    and "int j < INT_MAX"
  shows "indexOf_loop m d c (int j) = indexOf_loop m d c (int (Suc j))"
proof -
  have "nat (int d + int j) = d + j" by simp
  then show ?thesis
    using assms by (subst indexOf_loop.simps) (simp add: Let_def add.commute)
qed

lemma indexOf_loop_found:
  assumes "d + k < length m" and "m ! (d + k) = c" and "c \<noteq> 0"
    and "\<forall>i<k. m ! (d + i) \<noteq> 0 \<and> m ! (d + i) \<noteq> c"
    and "int k \<le> INT_MAX" and "j \<le> k"
  shows "indexOf_loop m d c (int j) = Inr (int k)"
  using assms(6)
proof (induction "k - j" arbitrary: j)
  case 0
  then have "j = k" by simp
  moreover have "nat (int d + int k) = d + k" by simp
  ultimately show ?case
    using assms(1-3) by (subst indexOf_loop.simps) (simp add: Let_def)
next
  case (Suc x)
  then have lt: "j < k" by simp
  with assms have "d + j < length m" and "m ! (d + j) \<noteq> 0" and "m ! (d + j) \<noteq> c"
    and "int j < INT_MAX"
    by simp_all
  then have "indexOf_loop m d c (int j) = indexOf_loop m d c (int (Suc j))"
    by (rule indexOf_loop_step)
  moreover have "indexOf_loop m d c (int (Suc j)) = Inr (int k)"
    using Suc lt by (intro Suc.hyps(1)) simp_all
  ultimately show ?case by simp
qed

lemma indexOf_loop_not_found:
  assumes "d + n < length m" and "m ! (d + n) = 0"
    and "\<forall>i<n. m ! (d + i) \<noteq> 0 \<and> m ! (d + i) \<noteq> c"
    and "int n \<le> INT_MAX" and "j \<le> n"
  shows "indexOf_loop m d c (int j) = Inr (- 1)"
  using assms(5)
proof (induction "n - j" arbitrary: j)
  case 0
  then have "j = n" by simp
  moreover have "nat (int d + int n) = d + n" by simp
  ultimately show ?case
    using assms(1,2) by (subst indexOf_loop.simps) (simp add: Let_def)
next
  case (Suc x)
  then have lt: "j < n" by simp
  with assms have "d + j < length m" and "m ! (d + j) \<noteq> 0" and "m ! (d + j) \<noteq> c"
    and "int j < INT_MAX"
    by simp_all
  then have "indexOf_loop m d c (int j) = indexOf_loop m d c (int (Suc j))"
    by (rule indexOf_loop_step)
  moreover have "indexOf_loop m d c (int (Suc j)) = Inr (- 1)"
    using Suc lt by (intro Suc.hyps(1)) simp_all
  ultimately show ?case by simp
qed

lemma indexOf_loop_overflow:
  assumes "\<forall>i\<le>nat INT_MAX. d + i < length m \<and> m ! (d + i) \<noteq> 0 \<and> m ! (d + i) \<noteq> c"
    and "j \<le> nat INT_MAX"
  shows "indexOf_loop m d c (int j) = Inl IntOverflow"
  using assms(2)
proof (induction "nat INT_MAX - j" arbitrary: j)
  case 0
  then have "int j = INT_MAX" by (simp add: INT_MAX_def)
  moreover have "nat (int d + int j) = d + j" by simp
  moreover from assms(1) 0 have "d + j < length m \<and> m ! (d + j) \<noteq> 0 \<and> m ! (d + j) \<noteq> c"
    by blast
  ultimately show ?case
    by (subst indexOf_loop.simps) (simp add: Let_def)
next
  case (Suc x)
  then have lt: "j < nat INT_MAX" by simp
  with assms have "d + j < length m" and "m ! (d + j) \<noteq> 0" and "m ! (d + j) \<noteq> c"
    and "int j < INT_MAX"
    by simp_all
  then have "indexOf_loop m d c (int j) = indexOf_loop m d c (int (Suc j))"
    by (rule indexOf_loop_step)
  moreover have "indexOf_loop m d c (int (Suc j)) = Inl IntOverflow"
    using Suc lt by (intro Suc.hyps(1)) simp_all
  ultimately show ?case by simp
qed

subsection \<open>Pointer comparison\<close>

text \<open>
  Claim C2. For all cursors \<open>a\<close> and \<open>b\<close>, \<open>a != b\<close> returns the same boolean as
  \<open>a == b\<close>: both say whether the two wrapped addresses are equal. So \<open>operator!=\<close> is not
  the negation of \<open>operator==\<close>, and it is never true for cursors that wrap different
  addresses.
\<close>

theorem op_neq_same_as_op_eq:
  "op_neq a b = op_eq a b
   \<and> op_eq a b = (data a = data b)
   \<and> op_neq a b = (data a = data b)
   \<and> op_neq a b \<noteq> (\<not> op_eq a b)
   \<and> \<not> (data a \<noteq> data b \<and> op_neq a b)"
  by (simp add: op_neq_def op_eq_def)

theorem op_neq_same_as_op_eq_witness:
  "op_neq \<lparr>data = 3\<rparr> \<lparr>data = 3\<rparr> \<and> op_eq \<lparr>data = 3\<rparr> \<lparr>data = 3\<rparr>
   \<and> \<not> op_neq \<lparr>data = 3\<rparr> \<lparr>data = 4\<rparr> \<and> \<not> op_eq \<lparr>data = 3\<rparr> \<lparr>data = 4\<rparr>"
  using op_neq_same_as_op_eq [of "\<lparr>data = 3\<rparr>" "\<lparr>data = 3\<rparr>"]
    op_neq_same_as_op_eq [of "\<lparr>data = 3\<rparr>" "\<lparr>data = 4\<rparr>"]
  by simp

subsection \<open>Writing one unit\<close>

text \<open>
  Claim C9. \<open>write (c)\<close> stores the code point at the current position and moves the
  cursor one unit past it; it writes no terminator and changes no other unit.
  \<open>writeNull\<close> stores the zero terminator at the current position; it changes only that
  unit, and the cursor stays where it is (the method is \<open>const\<close> and returns no cursor).
  The current position has to lie inside the storage.
\<close>

theorem write_char_writeNull_frame:
  assumes "data this < length m"
  shows "(\<exists>m' this'. write_char m this c = Inr (m', this')
            \<and> data this' = data this + 1
            \<and> m' ! data this = c
            \<and> length m' = length m
            \<and> (\<forall>a. a \<noteq> data this \<longrightarrow> m' ! a = m ! a))
       \<and> (\<exists>m'. writeNull m this = Inr m'
            \<and> m' ! data this = 0
            \<and> length m' = length m
            \<and> (\<forall>a. a \<noteq> data this \<longrightarrow> m' ! a = m ! a))"
  using assms by (simp add: write_char_def writeNull_def)

theorem write_char_writeNull_frame_witness:
  "data \<lparr>data = 2\<rparr> < length [65, 66, 67 :: juce_wchar]
   \<and> write_char [65, 66, 67] \<lparr>data = 2\<rparr> 90 = Inr ([65, 66, 90], \<lparr>data = 3\<rparr>)
   \<and> writeNull [65, 66, 67] \<lparr>data = 2\<rparr> = Inr [65, 66, 0]"
proof -
  have h: "data \<lparr>data = 2\<rparr> < length [65, 66, 67 :: juce_wchar]" by simp
  from write_char_writeNull_frame [OF h, of 90] show ?thesis
    by (simp add: write_char_def writeNull_def)
qed

subsection \<open>Lengths and sizes\<close>

text \<open>
  Claim C6. For a cursor at a terminated string of \<open>n\<close> characters, \<open>length()\<close> is \<open>n\<close>,
  the number of units strictly before the terminator; \<open>lengthUpTo (length() + 1)\<close> is
  \<open>length()\<close>; and for every \<open>k\<close>, \<open>lengthUpTo (k)\<close> is the smaller of \<open>n\<close> and \<open>k\<close>, so
  it is at most \<open>k\<close> and it is \<open>k\<close> when the cap comes before the terminator.
\<close>

theorem length_and_lengthUpTo:
  assumes "is_string m (data this) n"
  shows "length_chars m this = Inr n
       \<and> lengthUpTo m this (n + 1) = length_chars m this
       \<and> lengthUpTo m this k = Inr (min n k)
       \<and> min n k \<le> k"
proof -
  have "length_chars m this = Inr n"
    using assms by (simp add: length_chars_def length_loop_is_string)
  moreover have "lengthUpTo m this j = Inr (min n j)" for j
    using assms by (simp add: lengthUpTo_def lengthUpTo_loop_is_string)
  ultimately show ?thesis by simp
qed

theorem length_and_lengthUpTo_witness:
  "is_string [7, 8, 65, 66, 67, 0, 9] (data \<lparr>data = 2\<rparr>) 3
   \<and> length_chars [7, 8, 65, 66, 67, 0, 9] \<lparr>data = 2\<rparr> = Inr 3
   \<and> lengthUpTo [7, 8, 65, 66, 67, 0, 9] \<lparr>data = 2\<rparr> 4 = Inr 3
   \<and> lengthUpTo [7, 8, 65, 66, 67, 0, 9] \<lparr>data = 2\<rparr> 2 = Inr 2"
proof -
  have h: "is_string [7, 8, 65, 66, 67, 0, 9] (data \<lparr>data = 2\<rparr>) 3"
    by (simp add: is_string_def)
  from length_and_lengthUpTo [OF h, of 2] h show ?thesis
    by simp
qed

text \<open>
  Claim C4. For a cursor at a terminated string of \<open>n\<close> characters, \<open>sizeInBytes()\<close> is
  \<open>(length() + 1) * sizeof (CharType)\<close>, that is \<open>4 * n + 4\<close> bytes: the storage of the
  string with its terminator, in 32-bit units of four bytes.
\<close>

theorem sizeInBytes_counts_terminator:
  assumes "is_string m (data this) n"
  shows "length_chars m this = Inr n
       \<and> sizeInBytes m this = Inr ((n + 1) * sizeof_CharType)
       \<and> sizeInBytes m this = Inr (4 * n + 4)"
proof -
  have "length_chars m this = Inr n"
    using assms by (simp add: length_chars_def length_loop_is_string)
  then show ?thesis
    by (simp add: sizeInBytes_def sizeof_CharType_def)
qed

theorem sizeInBytes_counts_terminator_witness:
  "is_string [7, 8, 65, 66, 0, 9] (data \<lparr>data = 2\<rparr>) 2
   \<and> length_chars [7, 8, 65, 66, 0, 9] \<lparr>data = 2\<rparr> = Inr 2
   \<and> sizeInBytes [7, 8, 65, 66, 0, 9] \<lparr>data = 2\<rparr> = Inr 12"
proof -
  have h: "is_string [7, 8, 65, 66, 0, 9] (data \<lparr>data = 2\<rparr>) 2"
    by (simp add: is_string_def)
  from sizeInBytes_counts_terminator [OF h] h show ?thesis
    by (simp add: sizeof_CharType_def)
qed

text \<open>
  Claim C5, as the spec states it: for every source cursor of any encoding,
  \<open>getBytesRequiredFor (text)\<close> is the length of the source times \<open>sizeof (CharType)\<close>.
  The product is a \<open>size_t\<close>. Take a source class whose cursor is its own character
  count, so that its \<open>length()\<close> is \<open>Inr\<close>: for a source of \<open>2 ^ 62 = 4611686018427387904\<close>
  characters the product \<open>4 * 2 ^ 62 = 2 ^ 64\<close> wraps around to 0.
\<close>

theorem getBytesRequiredFor_wraps_counterexample:
  "getBytesRequiredFor Inr (4611686018427387904 :: nat) = Inr 0
   \<and> getBytesRequiredFor Inr (4611686018427387904 :: nat)
        \<noteq> Inr (4611686018427387904 * sizeof_CharType)"
  by (simp add: getBytesRequiredFor_def sizeof_CharType_def SIZE_MAX_def)

text \<open>
  Claim C5, amended: for a source cursor \<open>text\<close> of any class whose \<open>length()\<close> returns
  \<open>n\<close> with \<open>n * sizeof (CharType)\<close> at most \<open>SIZE_MAX\<close>, \<open>getBytesRequiredFor (text)\<close> is
  \<open>n * sizeof (CharType)\<close>, that is \<open>4 * n\<close> bytes: the size of the source's characters
  in this encoding, without a terminator.
\<close>

theorem getBytesRequiredFor_within_size_t:
  assumes "text_length text = Inr n" and "n * sizeof_CharType \<le> SIZE_MAX"
  shows "getBytesRequiredFor text_length text = Inr (n * sizeof_CharType)
       \<and> getBytesRequiredFor text_length text = Inr (4 * n)"
  using assms by (simp add: getBytesRequiredFor_def sizeof_CharType_def mult.commute)

theorem getBytesRequiredFor_within_size_t_witness:
  "length_chars [7, 8, 65, 66, 0, 9] \<lparr>data = 2\<rparr> = Inr 2
   \<and> 2 * sizeof_CharType \<le> SIZE_MAX
   \<and> getBytesRequiredFor (length_chars [7, 8, 65, 66, 0, 9]) \<lparr>data = 2\<rparr> = Inr 8"
proof -
  have h1: "length_chars [7, 8, 65, 66, 0, 9] \<lparr>data = 2\<rparr> = Inr 2"
    by (simp add: length_chars_def length_loop.simps)
  have h2: "2 * sizeof_CharType \<le> SIZE_MAX"
    by (simp add: sizeof_CharType_def SIZE_MAX_def)
  from getBytesRequiredFor_within_size_t
         [of "length_chars [7, 8, 65, 66, 0, 9]" "\<lparr>data = 2\<rparr>" 2, OF h1 h2] h1 h2
  show ?thesis
    by (simp add: sizeof_CharType_def)
qed

text \<open>
  Claim C8. For a cursor at a terminated string of \<open>n\<close> characters,
  \<open>findTerminatingNull()\<close> returns the cursor \<open>n\<close> units further on, where \<open>n\<close> is
  \<open>length()\<close>, and the unit under the returned cursor is zero.
\<close>

theorem findTerminatingNull_at_terminator:
  assumes "is_string m (data this) n"
  shows "findTerminatingNull m this = Inr \<lparr>data = data this + n\<rparr>
       \<and> length_chars m this = Inr n
       \<and> deref m \<lparr>data = data this + n\<rparr> = Inr 0"
proof -
  have len: "length_chars m this = Inr n"
    using assms by (simp add: length_chars_def length_loop_is_string)
  then have "findTerminatingNull m this = Inr \<lparr>data = data this + n\<rparr>"
    by (simp add: findTerminatingNull_def)
  moreover have "deref m \<lparr>data = data this + n\<rparr> = Inr 0"
    using is_string_bound [OF assms] is_string_terminator [OF assms]
    by (simp add: deref_def)
  ultimately show ?thesis using len by simp
qed

theorem findTerminatingNull_at_terminator_witness:
  "is_string [7, 8, 65, 66, 0, 9] (data \<lparr>data = 2\<rparr>) 2
   \<and> findTerminatingNull [7, 8, 65, 66, 0, 9] \<lparr>data = 2\<rparr> = Inr \<lparr>data = 4\<rparr>
   \<and> deref [7, 8, 65, 66, 0, 9] \<lparr>data = 4\<rparr> = Inr 0"
proof -
  have h: "is_string [7, 8, 65, 66, 0, 9] (data \<lparr>data = 2\<rparr>) 2"
    by (simp add: is_string_def)
  from findTerminatingNull_at_terminator [OF h] h show ?thesis
    by simp
qed

subsection \<open>Copying a string\<close>

text \<open>
  In the next two claims the destination is a buffer of its own: the \<open>n + 1\<close> units from
  \<open>dest\<close> lie inside the storage (sufficient capacity) and do not overlap the \<open>n + 1\<close>
  units of the source string.
\<close>

text \<open>
  Claim C1, as the spec states it: \<open>writeAll\<close> copies the characters of \<open>src\<close> and does
  not itself write a terminator into \<open>dest\<close>. It does write one. Copying the string
  \<open>[65, 66]\<close> from address 0 to address 3 of a storage whose other units are 7 leaves
  the cursor at address 5, and the unit there, which was 7, is now 0.
\<close>

theorem writeAll_leaves_terminator_unwritten_counterexample:
  "writeAll [65, 66, 0, 7, 7, 7, 7] \<lparr>data = 3\<rparr> \<lparr>data = 0\<rparr>
     = Inr ([65, 66, 0, 65, 66, 0, 7], \<lparr>data = 5\<rparr>)
   \<and> [65, 66, 0, 7, 7, 7, 7] ! 5 = (7 :: juce_wchar)
   \<and> [65, 66, 0, 65, 66, 0, 7] ! 5 = (0 :: juce_wchar)
   \<and> [65, 66, 0, 65, 66, 0, 7] ! 5 \<noteq> [65, 66, 0, 7, 7, 7, 7 :: juce_wchar] ! 5"
  by (simp add: writeAll_def writeAll_loop.simps)

text \<open>
  Claim C1, amended: for a source string of \<open>n\<close> characters, \<open>writeAll\<close> copies the \<open>n\<close>
  characters of \<open>src\<close> into \<open>dest\<close> one at a time and then the terminator as well; it
  leaves the destination cursor \<open>n\<close> units further on, at the terminator it has written;
  no unit outside the \<open>n + 1\<close> units from \<open>dest\<close> is changed.
\<close>

theorem writeAll_stores_terminator:
  assumes "is_string m (data src) n"
    and "data dest + n < length m"
    and "data dest + n < data src \<or> data src + n < data dest"
  shows "\<exists>m'. writeAll m dest src = Inr (m', dest\<lparr>data := data dest + n\<rparr>)
           \<and> length m' = length m
           \<and> (\<forall>i<n. m' ! (data dest + i) = m ! (data src + i))
           \<and> m' ! (data dest + n) = 0
           \<and> (\<forall>a. a < data dest \<or> data dest + n < a \<longrightarrow> m' ! a = m ! a)"
proof -
  from assms(3) have "data dest \<le> data src \<or> data src + n < data dest"
    by auto
  from writeAll_loop_copy [OF assms(1,2) this] obtain m' where
    run: "writeAll_loop m (data dest) (data src) = Inr (m', data dest + n)" and
    len: "length m' = length m" and
    copied: "\<forall>i\<le>n. m' ! (data dest + i) = m ! (data src + i)" and
    frame: "\<forall>a. a < data dest \<or> data dest + n < a \<longrightarrow> m' ! a = m ! a"
    by blast
  from copied have "m' ! (data dest + n) = m ! (data src + n)"
    by blast
  then have "m' ! (data dest + n) = 0"
    using is_string_terminator [OF assms(1)] by simp
  moreover from run have "writeAll m dest src = Inr (m', dest\<lparr>data := data dest + n\<rparr>)"
    by (simp add: writeAll_def)
  moreover from copied have "\<forall>i<n. m' ! (data dest + i) = m ! (data src + i)"
    by simp
  ultimately show ?thesis
    using len frame by blast
qed

theorem writeAll_stores_terminator_witness:
  "is_string [65, 66, 0, 7, 7, 7, 7] (data \<lparr>data = 0\<rparr>) 2
   \<and> data \<lparr>data = 3\<rparr> + 2 < length [65, 66, 0, 7, 7, 7, 7 :: juce_wchar]
   \<and> (data \<lparr>data = 3\<rparr> + 2 < data \<lparr>data = 0\<rparr> \<or> data \<lparr>data = 0\<rparr> + 2 < data \<lparr>data = 3\<rparr>)
   \<and> writeAll [65, 66, 0, 7, 7, 7, 7] \<lparr>data = 3\<rparr> \<lparr>data = 0\<rparr>
       = Inr ([65, 66, 0, 65, 66, 0, 7], \<lparr>data = 5\<rparr>)"
proof -
  have h1: "is_string [65, 66, 0, 7, 7, 7, 7] (data \<lparr>data = 0\<rparr>) 2"
    by (simp add: is_string_def)
  have h2: "data \<lparr>data = 3\<rparr> + 2 < length [65, 66, 0, 7, 7, 7, 7 :: juce_wchar]"
    by simp
  have h3: "data \<lparr>data = 3\<rparr> + 2 < data \<lparr>data = 0\<rparr> \<or> data \<lparr>data = 0\<rparr> + 2 < data \<lparr>data = 3\<rparr>"
    by simp
  from writeAll_stores_terminator [OF h1 h2 h3] h1 show ?thesis
    by (simp add: writeAll_def writeAll_loop.simps)
qed

text \<open>
  Claim C3. Round trip: for a source string of \<open>n\<close> characters and a destination buffer
  of sufficient capacity, \<open>writeAll\<close> from \<open>src\<close> and then \<open>writeNull\<close> on the destination
  cursor both return normally; afterwards a string of \<open>n\<close> characters starts at \<open>dest\<close>,
  its characters are those of \<open>src\<close>, the source is unchanged, and \<open>compare\<close> of the
  cursor at the start of the destination with \<open>src\<close> is 0.
\<close>

theorem writeAll_writeNull_round_trip:
  assumes "is_string m (data src) n"
    and "data dest + n < length m"
    and "data dest + n < data src \<or> data src + n < data dest"
  shows "\<exists>m1 dest1 m2. writeAll m dest src = Inr (m1, dest1)
           \<and> writeNull m1 dest1 = Inr m2
           \<and> is_string m2 (data dest) n
           \<and> take n (drop (data dest) m2) = take n (drop (data src) m)
           \<and> is_string m2 (data src) n
           \<and> take n (drop (data src) m2) = take n (drop (data src) m)
           \<and> compare m2 dest src = Inr 0"
proof -
  let ?d = "data dest" and ?s = "data src"
  from assms(3) have "?d \<le> ?s \<or> ?s + n < ?d"
    by auto
  from writeAll_loop_copy [OF assms(1,2) this] obtain m1 where
    run: "writeAll_loop m ?d ?s = Inr (m1, ?d + n)" and
    len: "length m1 = length m" and
    copied: "\<forall>i\<le>n. m1 ! (?d + i) = m ! (?s + i)" and
    frame: "\<forall>a. a < ?d \<or> ?d + n < a \<longrightarrow> m1 ! a = m ! a"
    by blast
  have sb: "?s + n < length m"
    using assms(1) by (rule is_string_bound)
  have src_kept: "m1 ! (?s + i) = m ! (?s + i)" if "i \<le> n" for i
    using frame assms(3) that by auto
  have copy: "writeAll m dest src = Inr (m1, dest\<lparr>data := ?d + n\<rparr>)"
    using run by (simp add: writeAll_def)
  have zero: "m1 ! (?d + n) = 0"
    using copied is_string_terminator [OF assms(1)] by simp
  then have "m1[?d + n := 0] = m1"
    by (metis list_update_id)
  then have nulled: "writeNull m1 (dest\<lparr>data := ?d + n\<rparr>) = Inr m1"
    using assms(2) len by (simp add: writeNull_def)
  have str_dest: "is_string m1 ?d n"
  proof (rule is_stringI)
    show "?d + n < length m1" using assms(2) len by simp
    show "m1 ! (?d + n) = 0" by (rule zero)
    show "m1 ! (?d + i) \<noteq> 0" if "i < n" for i
      using copied that is_string_nonzero [OF assms(1) that] by simp
  qed
  have str_src: "is_string m1 ?s n"
  proof (rule is_stringI)
    show "?s + n < length m1" using sb len by simp
    show "m1 ! (?s + n) = 0"
      using src_kept [of n] is_string_terminator [OF assms(1)] by simp
    show "m1 ! (?s + i) \<noteq> 0" if "i < n" for i
      using src_kept [of i] that is_string_nonzero [OF assms(1) that] by simp
  qed
  have chars_dest: "take n (drop ?d m1) = take n (drop ?s m)"
  proof (rule nth_equalityI)
    show "length (take n (drop ?d m1)) = length (take n (drop ?s m))"
      using assms(2) sb len by simp
  next
    fix i assume "i < length (take n (drop ?d m1))"
    then have "i < n" by simp
    then show "take n (drop ?d m1) ! i = take n (drop ?s m) ! i"
      using copied assms(2) sb len by simp
  qed
  have chars_src: "take n (drop ?s m1) = take n (drop ?s m)"
  proof (rule nth_equalityI)
    show "length (take n (drop ?s m1)) = length (take n (drop ?s m))"
      using sb len by simp
  next
    fix i assume "i < length (take n (drop ?s m1))"
    then have "i < n" by simp
    then show "take n (drop ?s m1) ! i = take n (drop ?s m) ! i"
      using src_kept [of i] sb len by simp
  qed
  have "\<forall>i\<le>n. m1 ! (?s + i) = m1 ! (?d + i)"
    using copied src_kept by simp
  with str_dest have "compare_loop m1 ?d ?s = Inr 0"
    using sb len by (intro compare_loop_equal [of m1 ?d n ?s]) simp_all
  then have "compare m1 dest src = Inr 0"
    by (simp add: compare_def)
  with copy nulled str_dest str_src chars_dest chars_src show ?thesis
    by blast
qed

theorem writeAll_writeNull_round_trip_witness:
  "is_string [65, 66, 0, 7, 7, 7, 7] (data \<lparr>data = 0\<rparr>) 2
   \<and> data \<lparr>data = 3\<rparr> + 2 < length [65, 66, 0, 7, 7, 7, 7 :: juce_wchar]
   \<and> (data \<lparr>data = 3\<rparr> + 2 < data \<lparr>data = 0\<rparr> \<or> data \<lparr>data = 0\<rparr> + 2 < data \<lparr>data = 3\<rparr>)
   \<and> writeAll [65, 66, 0, 7, 7, 7, 7] \<lparr>data = 3\<rparr> \<lparr>data = 0\<rparr>
       = Inr ([65, 66, 0, 65, 66, 0, 7], \<lparr>data = 5\<rparr>)
   \<and> writeNull [65, 66, 0, 65, 66, 0, 7] \<lparr>data = 5\<rparr> = Inr [65, 66, 0, 65, 66, 0, 7]
   \<and> compare [65, 66, 0, 65, 66, 0, 7] \<lparr>data = 3\<rparr> \<lparr>data = 0\<rparr> = Inr 0"
proof -
  have h1: "is_string [65, 66, 0, 7, 7, 7, 7] (data \<lparr>data = 0\<rparr>) 2"
    by (simp add: is_string_def)
  have h2: "data \<lparr>data = 3\<rparr> + 2 < length [65, 66, 0, 7, 7, 7, 7 :: juce_wchar]"
    by simp
  have h3: "data \<lparr>data = 3\<rparr> + 2 < data \<lparr>data = 0\<rparr> \<or> data \<lparr>data = 0\<rparr> + 2 < data \<lparr>data = 3\<rparr>"
    by simp
  from writeAll_writeNull_round_trip [OF h1 h2 h3] h1 show ?thesis
    by (simp add: writeAll_def writeAll_loop.simps writeNull_def compare_def compare_loop.simps)
qed

subsection \<open>Searching for a character\<close>

text \<open>A string of \<open>N\<close> units 1 followed by the unit 2 and the terminator.\<close>

lemma giant_string:
  "is_string (replicate N 1 @ [2, 0]) 0 (Suc N)"
proof (rule is_stringI)
  show "0 + Suc N < length (replicate N (1 :: juce_wchar) @ [2, 0])" by simp
  show "(replicate N 1 @ [2, 0 :: juce_wchar]) ! (0 + Suc N) = 0"
    by (simp add: nth_append)
  show "(replicate N 1 @ [2, 0 :: juce_wchar]) ! (0 + i) \<noteq> 0" if "i < Suc N" for i
  proof (cases "i < N")
    case True
    then show ?thesis by (simp add: nth_append)
  next
    case False
    with that have "i = N" by simp
    then show ?thesis by (simp add: nth_append)
  qed
qed

text \<open>
  Claim C7, as the spec states it: for every terminated string, \<open>indexOf (charToFind)\<close>
  returns the offset of the first unit equal to the target. The counter of the scan is an
  \<open>int\<close>. In the string of \<open>2 ^ 31\<close> units 1 followed by the unit 2, the first unit equal
  to 2 is at offset \<open>2 ^ 31 = 2147483648\<close>, which no \<open>int\<close> holds: the scan increments its
  counter at \<open>INT_MAX\<close>.
\<close>

theorem indexOf_offset_beyond_int_counterexample:
  "is_string (replicate 2147483648 1 @ [2, 0]) (data \<lparr>data = 0\<rparr>) 2147483649
   \<and> (replicate 2147483648 1 @ [2, 0 :: juce_wchar]) ! 2147483648 = 2
   \<and> 2 \<notin> set (replicate 2147483648 (1 :: juce_wchar))
   \<and> indexOf (replicate 2147483648 1 @ [2, 0]) \<lparr>data = 0\<rparr> 2 = Inl IntOverflow
   \<and> indexOf (replicate 2147483648 1 @ [2, 0]) \<lparr>data = 0\<rparr> 2 \<noteq> Inr 2147483648"
proof -
  let ?M = "replicate 2147483648 1 @ [2, 0 :: juce_wchar]"
  have "is_string ?M 0 (Suc 2147483648)"
    by (rule giant_string)
  then have str: "is_string ?M (data \<lparr>data = 0\<rparr>) 2147483649"
    by simp
  have at: "?M ! 2147483648 = 2"
    by (simp add: nth_append)
  have "\<forall>i\<le>nat INT_MAX. 0 + i < length ?M \<and> ?M ! (0 + i) \<noteq> 0 \<and> ?M ! (0 + i) \<noteq> 2"
    by (simp add: INT_MAX_def nth_append)
  then have "indexOf_loop ?M 0 2 (int 0) = Inl IntOverflow"
    by (rule indexOf_loop_overflow) simp
  then have "indexOf ?M \<lparr>data = 0\<rparr> 2 = Inl IntOverflow"
    by (simp add: indexOf_def)
  with str at show ?thesis
    by simp
qed

text \<open>
  Claim C7, amended: for a terminated string of \<open>n\<close> characters in which the first unit
  equal to the target, or else the terminator, lies at an offset of at most \<open>INT_MAX\<close>,
  \<open>indexOf (charToFind)\<close> scans from the current position and returns the zero-based
  offset \<open>k\<close> of the first unit equal to the target, or \<open>-1\<close> if the terminator is reached
  before any match.
\<close>

theorem indexOf_within_int_range:
  assumes "is_string m (data this) n"
  shows "(k < n \<and> m ! (data this + k) = c \<and> (\<forall>i<k. m ! (data this + i) \<noteq> c) \<and> int k \<le> INT_MAX
            \<longrightarrow> indexOf m this c = Inr (int k))
       \<and> ((\<forall>i<n. m ! (data this + i) \<noteq> c) \<and> int n \<le> INT_MAX
            \<longrightarrow> indexOf m this c = Inr (- 1))"
proof (intro conjI impI)
  assume found: "k < n \<and> m ! (data this + k) = c \<and> (\<forall>i<k. m ! (data this + i) \<noteq> c) \<and> int k \<le> INT_MAX"
  then have "data this + k < length m"
    using is_string_bound [OF assms] by simp
  moreover from found have "m ! (data this + k) = c" by simp
  moreover from found have "c \<noteq> 0"
    using is_string_nonzero [OF assms, of k] by auto
  moreover from found have "\<forall>i<k. m ! (data this + i) \<noteq> 0 \<and> m ! (data this + i) \<noteq> c"
    using is_string_nonzero [OF assms] by auto
  moreover from found have "int k \<le> INT_MAX" by simp
  ultimately have "indexOf_loop m (data this) c (int 0) = Inr (int k)"
    by (rule indexOf_loop_found) simp
  then show "indexOf m this c = Inr (int k)"
    by (simp add: indexOf_def)
next
  assume none: "(\<forall>i<n. m ! (data this + i) \<noteq> c) \<and> int n \<le> INT_MAX"
  have "data this + n < length m"
    using assms by (rule is_string_bound)
  moreover have "m ! (data this + n) = 0"
    using assms by (rule is_string_terminator)
  moreover from none have "\<forall>i<n. m ! (data this + i) \<noteq> 0 \<and> m ! (data this + i) \<noteq> c"
    using is_string_nonzero [OF assms] by auto
  moreover from none have "int n \<le> INT_MAX" by simp
  ultimately have "indexOf_loop m (data this) c (int 0) = Inr (- 1)"
    by (rule indexOf_loop_not_found) simp
  then show "indexOf m this c = Inr (- 1)"
    by (simp add: indexOf_def)
qed

theorem indexOf_within_int_range_witness:
  "is_string [7, 8, 65, 66, 67, 66, 0, 9] (data \<lparr>data = 2\<rparr>) 4
   \<and> indexOf [7, 8, 65, 66, 67, 66, 0, 9] \<lparr>data = 2\<rparr> 66 = Inr 1
   \<and> indexOf [7, 8, 65, 66, 67, 66, 0, 9] \<lparr>data = 2\<rparr> 9 = Inr (- 1)"
proof -
  have h: "is_string [7, 8, 65, 66, 67, 66, 0, 9] (data \<lparr>data = 2\<rparr>) 4"
    by (simp add: is_string_def)
  have "\<forall>i<4. [7, 8, 65, 66, 67, 66, 0, 9 :: juce_wchar] ! (2 + i) \<noteq> 9"
  proof (intro allI impI)
    fix i :: nat
    assume "i < 4"
    then consider "i = 0" | "i = 1" | "i = 2" | "i = 3"
      by linarith
    then show "[7, 8, 65, 66, 67, 66, 0, 9 :: juce_wchar] ! (2 + i) \<noteq> 9"
      by cases simp_all
  qed
  with indexOf_within_int_range [OF h, of 1 66] indexOf_within_int_range [OF h, of 0 9] h
  show ?thesis
    by (simp add: INT_MAX_def)
qed

end
